theory Spec2Isabelle
  imports Complex_Main "HOL-Library.AList" "HOL-Library.Sublist"
begin

section \<open>Data model\<close>

text \<open>
  The script \<^verbatim>\<open>voyages/optimize_images.py\<close> works on a file system through Pillow,
  \<^verbatim>\<open>os.path\<close> and \<^verbatim>\<open>pathlib\<close>. The file system is an explicit value that every
  operation takes and returns; printing is a list of events; every exception is a value.
\<close>

text \<open>A \<^verbatim>\<open>Path\<close> is the list of its components; \<^verbatim>\<open>Path('France/Nice')\<close> is
  \<open>[''France'', ''Nice'']\<close>.\<close>

type_synonym path = "string list"

text \<open>Pillow's image modes.\<close>

datatype mode =
  M1 | L | P | RGB | RGBA | CMYK | YCbCr | LAB | HSV | I | F | LA | PA | RGBX | RGBa | La

text \<open>An image in memory: its mode and \<^verbatim>\<open>size = (width, height)\<close>. Pixel values play
  no part in the control flow of the script.\<close>

record image =
  mode :: mode
  width :: nat
  height :: nat

datatype format = JPEG | WEBP | OTHER

text \<open>What the bytes of a file are: an encoded image (the format and the image that
  decoding gives back) or bytes that no decoder identifies.\<close>

datatype content = Encoded format image | Undecodable

text \<open>A directory entry: a directory or a regular file with its \<^verbatim>\<open>st_size\<close>, or a
  symbolic link whose target does not exist. A link to an existing file or directory is
  represented by what it points to.\<close>

datatype node = Dir nat | File nat content | Dangling

text \<open>The file system: an association list in directory-listing order.\<close>

type_synonym fs = "(path \<times> node) list"

text \<open>The exceptions of the run. All but \<open>KeyboardInterrupt\<close> are subclasses of
  \<^verbatim>\<open>Exception\<close>.\<close>

datatype exn =
  FileNotFoundError | IsADirectoryError | PermissionError | UnidentifiedImageError
  | OSError | ValueError | ZeroDivisionError | MemoryError | KeyboardInterrupt

definition is_Exception :: "exn \<Rightarrow> bool" where
  "is_Exception e = (e \<noteq> KeyboardInterrupt)"

text \<open>The lines the script prints. Sizes are printed in KB (\<^verbatim>\<open>// 1024\<close>); the
  percentages are formatted floats and are left out of the events. Standard output is
  taken to accept every line: a \<^verbatim>\<open>print\<close> that raises \<^verbatim>\<open>UnicodeEncodeError\<close> on a
  file name that the stream cannot encode is not part of this model.\<close>

datatype event =
  Resized string
  | Optimized string nat nat
  | WebpCreated nat
  | Erreur string exn
  | Banner
  | DossierIntrouvable path
  | FolderHeader path
  | Resume nat nat nat
  | Economise int
  | Termine
  | WebpReminder
  | Annule

text \<open>The module-level configuration constants.\<close>

record config =
  QUALITY_JPG :: nat
  QUALITY_WEBP :: nat
  CREATE_WEBP :: bool
  MAX_SIZE :: "nat \<times> nat"
  TRAVEL_FOLDERS :: "path list"

definition script_config :: config where
  "script_config = \<lparr>
     QUALITY_JPG = 85,
     QUALITY_WEBP = 80,
     CREATE_WEBP = True,
     MAX_SIZE = (2000, 2000),
     TRAVEL_FOLDERS =
       [[''Finlande''],
        [''Norv'' @ [char_of (195::nat), char_of (168::nat)] @ ''ge''],
        [''Estonie''],
        [''Lettonie''],
        [''France'', ''Nice''],
        [''France'', ''Monaco''],
        [''France'', ''Cannes''],
        [''Espagne'', ''Lloret de mar'']] \<rparr>"

text \<open>What the script cannot know about its surroundings: whether \<^verbatim>\<open>pathlib\<close> matches
  names with regard to case (the POSIX flavour does, the Windows flavour compiles its
  patterns with \<^verbatim>\<open>re.IGNORECASE\<close>), whether a file may be read or written, and what an
  encoder does with an image (the byte size of its output, or the exception it raises).\<close>

record env =
  case_sensitive :: bool
  can_read :: "path \<Rightarrow> bool"
  can_write :: "path \<Rightarrow> bool"
  encode :: "path \<Rightarrow> format \<Rightarrow> nat \<Rightarrow> image \<Rightarrow> exn + nat"

section \<open>Library operations\<close>

subsection \<open>\<^verbatim>\<open>os.path\<close> and \<^verbatim>\<open>pathlib\<close>\<close>

text \<open>\<^verbatim>\<open>Path.exists\<close> and \<^verbatim>\<open>os.path.exists\<close> follow symbolic links: a dangling link
  does not exist.\<close>

definition path_exists :: "fs \<Rightarrow> path \<Rightarrow> bool" where
  "path_exists fs p = (map_of fs p \<noteq> None \<and> map_of fs p \<noteq> Some Dangling)"

text \<open>\<^verbatim>\<open>os.path.getsize\<close> is \<^verbatim>\<open>os.stat(path).st_size\<close>, which follows links too.\<close>

definition getsize :: "fs \<Rightarrow> path \<Rightarrow> exn + nat" where
  "getsize fs p =
     (case map_of fs p of
        None \<Rightarrow> Inl FileNotFoundError
      | Some (Dir n) \<Rightarrow> Inr n
      | Some (File n c) \<Rightarrow> Inr n
      | Some Dangling \<Rightarrow> Inl FileNotFoundError)"

text \<open>\<^verbatim>\<open>Path.name\<close>: the final component, empty for the empty path.\<close>

definition path_name :: "path \<Rightarrow> string" where
  "path_name p = (if p = [] then [] else last p)"

text \<open>\<^verbatim>\<open>str.rfind('.')\<close> as the number of characters before the last dot.\<close>

fun rfind_dot :: "string \<Rightarrow> nat option" where
  "rfind_dot [] = None"
| "rfind_dot (c # cs) =
     (case rfind_dot cs of
        Some i \<Rightarrow> Some (Suc i)
      | None \<Rightarrow> (if c = CHR ''.'' then Some 0 else None))"

text \<open>\<^verbatim>\<open>Path.suffix\<close>: from the last dot of the name, unless that dot is the first or
  the last character.\<close>

definition path_suffix :: "path \<Rightarrow> string" where
  "path_suffix p =
     (let name = path_name p in
      case rfind_dot name of
        None \<Rightarrow> []
      | Some i \<Rightarrow> (if 0 < i \<and> i < length name - 1 then drop i name else []))"

text \<open>\<^verbatim>\<open>Path.with_suffix(suffix)\<close> for a suffix that starts with a dot: raises
  \<^verbatim>\<open>ValueError\<close> on an empty name, else replaces the old suffix of the name.\<close>

definition with_suffix :: "path \<Rightarrow> string \<Rightarrow> exn + path" where
  "with_suffix p sfx =
     (let name = path_name p in
      if name = [] then Inl ValueError
      else
        let old_suffix = path_suffix p;
            name' = (if old_suffix = [] then name @ sfx
                     else take (length name - length old_suffix) name @ sfx)
        in Inr (butlast p @ [name']))"

text \<open>\<^verbatim>\<open>str.lower\<close> on ASCII letters; other characters are kept.\<close>

definition char_lower :: "char \<Rightarrow> char" where
  "char_lower c =
     (if (65::nat) \<le> of_char c \<and> (of_char c :: nat) \<le> 90
      then char_of ((of_char c :: nat) + 32) else c)"

definition str_lower :: "string \<Rightarrow> string" where
  "str_lower s = map char_lower s"

text \<open>A name against the pattern \<^verbatim>\<open>'*' + ext\<close>: the name ends with \<open>ext\<close>, compared as
  written on the POSIX flavour and without regard to case on the Windows flavour.\<close>

definition fnmatch_ext :: "bool \<Rightarrow> string \<Rightarrow> string \<Rightarrow> bool" where
  "fnmatch_ext cs ext name =
     (if cs then suffix ext name else suffix (str_lower ext) (str_lower name))"

definition is_dir :: "fs \<Rightarrow> path \<Rightarrow> bool" where
  "is_dir fs p = (case map_of fs p of Some (Dir n) \<Rightarrow> True | _ \<Rightarrow> False)"

text \<open>\<^verbatim>\<open>Path.glob('*' + ext)\<close>: the entries one level below the folder whose name matches,
  in listing order. An entry is listed whatever it is, a dangling link included. A path
  that is not a directory has no entries.\<close>

definition glob :: "bool \<Rightarrow> fs \<Rightarrow> path \<Rightarrow> string \<Rightarrow> path list" where
  "glob cs fs folder ext =
     (if is_dir fs folder
      then filter (\<lambda>p. p \<noteq> [] \<and> butlast p = folder \<and> fnmatch_ext cs ext (last p))
             (remdups (map fst fs))
      else [])"

subsection \<open>Pillow\<close>

text \<open>\<^verbatim>\<open>Image.open\<close>: the file must exist (a dangling link does not), be a regular
  readable file and hold an image that a decoder identifies.\<close>

definition image_open :: "env \<Rightarrow> fs \<Rightarrow> path \<Rightarrow> exn + image" where
  "image_open ev fs p =
     (case map_of fs p of
        None \<Rightarrow> Inl FileNotFoundError
      | Some Dangling \<Rightarrow> Inl FileNotFoundError
      | Some (Dir n) \<Rightarrow> Inl IsADirectoryError
      | Some (File n c) \<Rightarrow>
          (if \<not> can_read ev p then Inl PermissionError
           else case c of
                  Undecodable \<Rightarrow> Inl UnidentifiedImageError
                | Encoded f img \<Rightarrow> Inr img))"

text \<open>\<^verbatim>\<open>Image.convert('RGB')\<close> keeps the size.\<close>

definition convert :: "image \<Rightarrow> mode \<Rightarrow> image" where
  "convert img m = img\<lparr>mode := m\<rparr>"

text \<open>
  \<^verbatim>\<open>Image.thumbnail(size, resample)\<close> (Pillow 9.1 and later, where
  \<^verbatim>\<open>Image.Resampling\<close> exists) computes the new size as
  \<^verbatim>\<open>
  def round_aspect(number, key):
      return max(min(math.floor(number), math.ceil(number), key=key), 1)
  x, y = provided_size
  if x >= self.width and y >= self.height:
      return
  aspect = self.width / self.height
  if x / y >= aspect:
      x = round_aspect(y * aspect, key=lambda n: abs(aspect - n / y))
  else:
      y = round_aspect(x / aspect, key=lambda n: 0 if n == 0 else abs(aspect - x / n))
  \<close>
  and resizes to \<open>(x, y)\<close>. The quotients are taken in the rationals here.
\<close>

definition round_aspect :: "rat \<Rightarrow> (int \<Rightarrow> rat) \<Rightarrow> int" where
  "round_aspect number key =
     max (if key \<lceil>number\<rceil> < key \<lfloor>number\<rfloor> then \<lceil>number\<rceil> else \<lfloor>number\<rfloor>) 1"

definition thumbnail :: "image \<Rightarrow> nat \<times> nat \<Rightarrow> exn + image" where
  "thumbnail img sz =
     (let x = fst sz; y = snd sz in
      if width img \<le> x \<and> height img \<le> y then Inr img
      else if height img = 0 \<or> y = 0 then Inl ZeroDivisionError
      else
        let aspect = of_nat (width img) / of_nat (height img) :: rat in
        if of_nat x / of_nat y \<ge> aspect
        then Inr (img\<lparr>width :=
               nat (round_aspect (of_nat y * aspect)
                      (\<lambda>n. \<bar>aspect - of_int n / of_nat y\<bar>)),
               height := y\<rparr>)
        else Inr (img\<lparr>width := x,
               height :=
               nat (round_aspect (of_nat x / aspect)
                      (\<lambda>n. if n = 0 then 0 else \<bar>aspect - of_nat x / of_int n\<bar>))\<rparr>))"

text \<open>The modes the JPEG writer accepts (the keys of \<^verbatim>\<open>JpegImagePlugin.RAWMODE\<close>); any
  other mode raises \<^verbatim>\<open>OSError("cannot write mode ... as JPEG")\<close>.\<close>

definition jpeg_rawmode :: "mode \<Rightarrow> bool" where
  "jpeg_rawmode m = (m = M1 \<or> m = L \<or> m = RGB \<or> m = RGBX \<or> m = CMYK \<or> m = YCbCr)"

text \<open>The format's save handler: the JPEG writer refuses an empty image and a mode that
  it cannot write; everything else is the encoder's business.\<close>

definition save_handler :: "env \<Rightarrow> path \<Rightarrow> format \<Rightarrow> nat \<Rightarrow> image \<Rightarrow> exn + nat" where
  "save_handler ev p fmt quality img =
     (if fmt = JPEG \<and> (width img = 0 \<or> height img = 0) then Inl ValueError
      else if fmt = JPEG \<and> \<not> jpeg_rawmode (mode img) then Inl OSError
      else encode ev p fmt quality img)"

text \<open>
  \<^verbatim>\<open>Image.save(path, format, ...)\<close>: notes whether the file is new, opens it with
  \<^verbatim>\<open>"w+b"\<close> (which truncates it), runs the save handler, and on an exception removes the
  file if this call created it, then re-raises. A raise carries the file system it leaves.
\<close>

definition save :: "env \<Rightarrow> fs \<Rightarrow> path \<Rightarrow> format \<Rightarrow> nat \<Rightarrow> image \<Rightarrow> (exn \<times> fs) + fs" where
  "save ev fs p fmt quality img =
     (let created = \<not> path_exists fs p in
      if is_dir fs p then Inl (IsADirectoryError, fs)
      else if \<not> can_write ev p then Inl (PermissionError, fs)
      else
        let fs1 = AList.update p (File 0 Undecodable) fs in
        case save_handler ev p fmt quality img of
          Inl e \<Rightarrow> Inl (e, if created then AList.delete p fs1 else fs1)
        | Inr n \<Rightarrow> Inr (AList.update p (File n (Encoded fmt img)) fs1))"

section \<open>The script\<close>

subsection \<open>\<^verbatim>\<open>optimize_image\<close>\<close>

text \<open>Lines 36 to 43: convert to RGB when the mode is \<^verbatim>\<open>'RGBA'\<close> or \<^verbatim>\<open>'P'\<close>, then
  shrink when either side exceeds \<^verbatim>\<open>MAX_SIZE\<close>.\<close>

definition normalize :: "config \<Rightarrow> path \<Rightarrow> image \<Rightarrow> exn + (image \<times> event list)" where
  "normalize cfg p img0 =
     (let img = (if mode img0 = RGBA \<or> mode img0 = P then convert img0 RGB else img0) in
      if width img > fst (MAX_SIZE cfg) \<or> height img > snd (MAX_SIZE cfg)
      then (case thumbnail img (MAX_SIZE cfg) of
              Inl e \<Rightarrow> Inl e
            | Inr img' \<Rightarrow> Inr (img', [Resized (path_name p)]))
      else Inr (img, []))"

text \<open>Lines 54 to 58: the WebP sibling. The first component of the result is the
  exception raised, if any.\<close>

definition save_webp ::
  "config \<Rightarrow> env \<Rightarrow> fs \<Rightarrow> path \<Rightarrow> image \<Rightarrow> exn option \<times> fs \<times> event list" where
  "save_webp cfg ev fs p img =
     (case with_suffix p ''.webp'' of
        Inl e \<Rightarrow> (Some e, fs, [])
      | Inr webp_path \<Rightarrow>
          (case save ev fs webp_path WEBP (QUALITY_WEBP cfg) img of
             Inl (e, fs') \<Rightarrow> (Some e, fs', [])
           | Inr fs' \<Rightarrow>
               (case getsize fs' webp_path of
                  Inl e \<Rightarrow> (Some e, fs', [])
                | Inr webp_size \<Rightarrow> (None, fs', [WebpCreated (webp_size div 1024)]))))"

text \<open>The body of the \<^verbatim>\<open>try\<close> (lines 34 to 60). \<open>None\<close> is \<^verbatim>\<open>return True\<close>;
  \<open>Some e\<close> is the exception that left the block, with the file system and the lines
  printed up to there.\<close>

definition try_body ::
  "config \<Rightarrow> env \<Rightarrow> fs \<Rightarrow> path \<Rightarrow> exn option \<times> fs \<times> event list" where
  "try_body cfg ev fs p =
     (case image_open ev fs p of
        Inl e \<Rightarrow> (Some e, fs, [])
      | Inr img0 \<Rightarrow>
     (case normalize cfg p img0 of
        Inl e \<Rightarrow> (Some e, fs, [])
      | Inr (img, out1) \<Rightarrow>
     (case getsize fs p of
        Inl e \<Rightarrow> (Some e, fs, out1)
      | Inr original_size \<Rightarrow>
     (case save ev fs p JPEG (QUALITY_JPG cfg) img of
        Inl (e, fs1) \<Rightarrow> (Some e, fs1, out1)
      | Inr fs1 \<Rightarrow>
     (case getsize fs1 p of
        Inl e \<Rightarrow> (Some e, fs1, out1)
      | Inr new_size \<Rightarrow>
          if original_size = 0 then (Some ZeroDivisionError, fs1, out1)
          else
            let out2 = out1 @ [Optimized (path_name p) (original_size div 1024) (new_size div 1024)]
            in if CREATE_WEBP cfg
               then (case save_webp cfg ev fs1 p img of
                       (r, fs2, out3) \<Rightarrow> (r, fs2, out2 @ out3))
               else (None, fs1, out2))))))"

text \<open>\<^verbatim>\<open>optimize_image\<close>: \<^verbatim>\<open>except Exception\<close> turns an exception of that class into
  \<^verbatim>\<open>return False\<close> after printing it; any other exception leaves the function. The
  result is what the call returns (\<open>Inr\<close>) or raises (\<open>Inl\<close>), the file system it
  leaves and the lines it printed.\<close>

definition optimize_image ::
  "config \<Rightarrow> env \<Rightarrow> fs \<Rightarrow> path \<Rightarrow> (exn + bool) \<times> fs \<times> event list" where
  "optimize_image cfg ev fs p =
     (case try_body cfg ev fs p of
        (None, fs', out) \<Rightarrow> (Inr True, fs', out)
      | (Some e, fs', out) \<Rightarrow>
          if is_Exception e then (Inr False, fs', out @ [Erreur (path_name p) e])
          else (Inl e, fs', out))"

subsection \<open>\<^verbatim>\<open>main\<close>\<close>

text \<open>The state of a run: the file system, the three counters and the lines printed.\<close>

record run =
  files :: fs
  total_images :: nat
  total_original :: nat
  total_optimized :: nat
  printed :: "event list"

text \<open>Lines 91 to 95, the body of the inner loop. A raise carries the state it leaves.\<close>

definition process_image :: "config \<Rightarrow> env \<Rightarrow> run \<Rightarrow> path \<Rightarrow> (exn \<times> run) + run" where
  "process_image cfg ev st img_path =
     (case getsize (files st) img_path of
        Inl e \<Rightarrow> Inl (e, st)
      | Inr original_size \<Rightarrow>
     (case optimize_image cfg ev (files st) img_path of
        (r, fs', out) \<Rightarrow>
          let st' = st\<lparr>files := fs', printed := printed st @ out\<rparr> in
          case r of
            Inl e \<Rightarrow> Inl (e, st')
          | Inr False \<Rightarrow> Inr st'
          | Inr True \<Rightarrow>
              (case getsize fs' img_path of
                 Inl e \<Rightarrow> Inl (e, st')
               | Inr optimized_size \<Rightarrow>
                   Inr (st'\<lparr>total_images := total_images st + 1,
                            total_original := total_original st + original_size,
                            total_optimized := total_optimized st + optimized_size\<rparr>))))"

fun process_images :: "config \<Rightarrow> env \<Rightarrow> run \<Rightarrow> path list \<Rightarrow> (exn \<times> run) + run" where
  "process_images cfg ev st [] = Inr st"
| "process_images cfg ev st (img_path # images) =
     (case process_image cfg ev st img_path of
        Inl r \<Rightarrow> Inl r
      | Inr st' \<Rightarrow> process_images cfg ev st' images)"

text \<open>Lines 80 to 95, the body of the outer loop.\<close>

definition process_folder :: "config \<Rightarrow> env \<Rightarrow> run \<Rightarrow> path \<Rightarrow> (exn \<times> run) + run" where
  "process_folder cfg ev st folder =
     (if \<not> path_exists (files st) folder
      then Inr (st\<lparr>printed := printed st @ [DossierIntrouvable folder]\<rparr>)
      else
        let images = glob (case_sensitive ev) (files st) folder ''.jpg''
                       @ glob (case_sensitive ev) (files st) folder ''.JPG''
        in process_images cfg ev (st\<lparr>printed := printed st @ [FolderHeader folder]\<rparr>) images)"

fun process_folders :: "config \<Rightarrow> env \<Rightarrow> run \<Rightarrow> path list \<Rightarrow> (exn \<times> run) + run" where
  "process_folders cfg ev st [] = Inr st"
| "process_folders cfg ev st (folder # folders) =
     (case process_folder cfg ev st folder of
        Inl r \<Rightarrow> Inl r
      | Inr st' \<Rightarrow> process_folders cfg ev st' folders)"

text \<open>Lines 97 to 115: the summary. Line 105 divides by \<^verbatim>\<open>total_original\<close>.\<close>

definition summary :: "config \<Rightarrow> run \<Rightarrow> (exn \<times> run) + run" where
  "summary cfg st =
     (let st1 = st\<lparr>printed := printed st @
                  [Resume (total_images st) (total_original st) (total_optimized st)]\<rparr>
      in if total_original st = 0 then Inl (ZeroDivisionError, st1)
         else Inr (st1\<lparr>printed := printed st1 @
                    [Economise (int (total_original st) - int (total_optimized st)), Termine]
                    @ (if CREATE_WEBP cfg then [WebpReminder] else [])\<rparr>))"

definition initial :: "fs \<Rightarrow> run" where
  "initial fs = \<lparr>files = fs, total_images = 0, total_original = 0, total_optimized = 0,
                 printed = []\<rparr>"

definition main :: "config \<Rightarrow> env \<Rightarrow> fs \<Rightarrow> (exn \<times> run) + run" where
  "main cfg ev fs =
     (case process_folders cfg ev ((initial fs)\<lparr>printed := [Banner]\<rparr>) (TRAVEL_FOLDERS cfg) of
        Inl r \<Rightarrow> Inl r
      | Inr st \<Rightarrow> summary cfg st)"

subsection \<open>The entry point\<close>

text \<open>Lines 117 to 123: \<^verbatim>\<open>response\<close> is what \<^verbatim>\<open>input\<close> returned.\<close>

definition script :: "config \<Rightarrow> env \<Rightarrow> fs \<Rightarrow> string \<Rightarrow> (exn \<times> run) + run" where
  "script cfg ev fs response =
     (if str_lower response \<in> set [''o'', ''oui'', ''y'', ''yes'']
      then main cfg ev fs
      else Inr ((initial fs)\<lparr>printed := [Annule]\<rparr>))"

section \<open>Observations\<close>

text \<open>The image a path holds, if it holds one.\<close>

definition image_at :: "fs \<Rightarrow> path \<Rightarrow> image option" where
  "image_at fs p =
     (case map_of fs p of
        Some (File n (Encoded f img)) \<Rightarrow> Some img
      | _ \<Rightarrow> None)"

text \<open>A resize to fit the box \<open>sz\<close> keeps the aspect ratio of \<open>img0\<close> as far as whole
  pixels allow: one side is exactly its bound, and the other is less than one pixel away
  from the proportional value (compared after multiplying out the quotient).\<close>

definition aspect_kept :: "nat \<times> nat \<Rightarrow> image \<Rightarrow> image \<Rightarrow> bool" where
  "aspect_kept sz img0 img =
     ((height img = snd sz \<and>
       \<bar>int (width img) * int (height img0) - int (snd sz) * int (width img0)\<bar>
         < int (height img0))
      \<or> (width img = fst sz \<and>
       \<bar>int (height img) * int (width img0) - int (fst sz) * int (height img0)\<bar>
         < int (width img0)))"

text \<open>Pillow's modes with an alpha channel, and its palette modes.\<close>

definition has_alpha :: "mode \<Rightarrow> bool" where
  "has_alpha m = (m = RGBA \<or> m = LA \<or> m = PA \<or> m = RGBa \<or> m = La)"

definition is_palette :: "mode \<Rightarrow> bool" where
  "is_palette m = (m = P \<or> m = PA)"

text \<open>The files \<^verbatim>\<open>main\<close> collects in a folder (line 88).\<close>

definition images_of :: "bool \<Rightarrow> fs \<Rightarrow> path \<Rightarrow> path list" where
  "images_of cs fs folder = glob cs fs folder ''.jpg'' @ glob cs fs folder ''.JPG''"


section \<open>Example inputs\<close>

text \<open>A POSIX environment in which everything is permitted and both encoders succeed.\<close>

definition demo_env :: env where
  "demo_env = \<lparr>case_sensitive = True, can_read = (\<lambda>p. True), can_write = (\<lambda>p. True),
     encode = (\<lambda>p f q img. Inr (if f = JPEG then 300000 else 200000))\<rparr>"

text \<open>The same, but the WebP encoder fails.\<close>

definition webp_fails_env :: env where
  "webp_fails_env = \<lparr>case_sensitive = True, can_read = (\<lambda>p. True), can_write = (\<lambda>p. True),
     encode = (\<lambda>p f q img. if f = WEBP then Inl OSError else Inr 300000)\<rparr>"

text \<open>One folder of the list with a large photo, a photo whose extension is in mixed
  case, a greyscale image with an alpha channel, and a subfolder.\<close>

definition demo_fs :: fs where
  "demo_fs =
     [([''Finlande''], Dir 4096),
      ([''Finlande'', ''a.jpg''],
         File 5000000 (Encoded JPEG \<lparr>mode = RGB, width = 4000, height = 3000\<rparr>)),
      ([''Finlande'', ''b.Jpg''],
         File 800000 (Encoded JPEG \<lparr>mode = RGB, width = 1600, height = 1200\<rparr>)),
      ([''Finlande'', ''c.JPG''],
         File 700000 (Encoded OTHER \<lparr>mode = LA, width = 400, height = 300\<rparr>)),
      ([''Finlande'', ''sub''], Dir 4096),
      ([''Finlande'', ''sub'', ''d.jpg''], File 7000 Undecodable)]"

definition demo_path :: path where
  "demo_path = [''Finlande'', ''a.jpg'']"

text \<open>What \<^verbatim>\<open>optimize_image\<close> leaves and prints on the large photo.\<close>

definition demo_fs_after :: fs where
  "demo_fs_after =
     [([''Finlande''], Dir 4096),
      ([''Finlande'', ''a.jpg''],
         File 300000 (Encoded JPEG \<lparr>mode = RGB, width = 2000, height = 1500\<rparr>)),
      ([''Finlande'', ''b.Jpg''],
         File 800000 (Encoded JPEG \<lparr>mode = RGB, width = 1600, height = 1200\<rparr>)),
      ([''Finlande'', ''c.JPG''],
         File 700000 (Encoded OTHER \<lparr>mode = LA, width = 400, height = 300\<rparr>)),
      ([''Finlande'', ''sub''], Dir 4096),
      ([''Finlande'', ''sub'', ''d.jpg''], File 7000 Undecodable),
      ([''Finlande'', ''a.webp''],
         File 200000 (Encoded WEBP \<lparr>mode = RGB, width = 2000, height = 1500\<rparr>))]"

definition demo_out :: "event list" where
  "demo_out = [Resized ''a.jpg'', Optimized ''a.jpg'' 4882 292, WebpCreated 195]"

text \<open>A single image with an alpha channel, and what the call leaves of it.\<close>

definition rgba_fs :: fs where
  "rgba_fs = [([''x.jpg''], File 9000 (Encoded OTHER \<lparr>mode = RGBA, width = 10, height = 10\<rparr>))]"

definition rgba_fs_after :: fs where
  "rgba_fs_after =
     [([''x.jpg''], File 300000 (Encoded JPEG \<lparr>mode = RGB, width = 10, height = 10\<rparr>)),
      ([''x.webp''], File 200000 (Encoded WEBP \<lparr>mode = RGB, width = 10, height = 10\<rparr>))]"

text \<open>What the call leaves of the example folder when it is given the greyscale image
  with an alpha channel.\<close>

definition la_fs_after :: fs where
  "la_fs_after =
     [([''Finlande''], Dir 4096),
      ([''Finlande'', ''a.jpg''],
         File 5000000 (Encoded JPEG \<lparr>mode = RGB, width = 4000, height = 3000\<rparr>)),
      ([''Finlande'', ''b.Jpg''],
         File 800000 (Encoded JPEG \<lparr>mode = RGB, width = 1600, height = 1200\<rparr>)),
      ([''Finlande'', ''c.JPG''], File 0 Undecodable),
      ([''Finlande'', ''sub''], Dir 4096),
      ([''Finlande'', ''sub'', ''d.jpg''], File 7000 Undecodable)]"

text \<open>The example folder after the large photo was re-encoded and the WebP encoder
  failed.\<close>

definition jpeg_only_fs :: fs where
  "jpeg_only_fs =
     [([''Finlande''], Dir 4096),
      ([''Finlande'', ''a.jpg''],
         File 300000 (Encoded JPEG \<lparr>mode = RGB, width = 2000, height = 1500\<rparr>)),
      ([''Finlande'', ''b.Jpg''],
         File 800000 (Encoded JPEG \<lparr>mode = RGB, width = 1600, height = 1200\<rparr>)),
      ([''Finlande'', ''c.JPG''],
         File 700000 (Encoded OTHER \<lparr>mode = LA, width = 400, height = 300\<rparr>)),
      ([''Finlande'', ''sub''], Dir 4096),
      ([''Finlande'', ''sub'', ''d.jpg''], File 7000 Undecodable)]"

text \<open>A folder of the list that holds a dangling link named like a photo, listed before
  a photo.\<close>

definition link_fs :: fs where
  "link_fs =
     [([''Finlande''], Dir 4096),
      ([''Finlande'', ''broken.jpg''], Dangling),
      ([''Finlande'', ''a.jpg''],
         File 5000000 (Encoded JPEG \<lparr>mode = RGB, width = 4000, height = 3000\<rparr>))]"

section \<open>Lemmas on the library operations\<close>

lemma round_aspect_ge1: "1 \<le> round_aspect number key"
  by (simp add: round_aspect_def)

lemma round_aspect_le:
  assumes "number \<le> of_int b" and "1 \<le> b"
  shows "round_aspect number key \<le> b"
proof -
  have "\<lceil>number\<rceil> \<le> b" using assms(1) by (simp add: ceiling_le_iff)
  moreover from this have "\<lfloor>number\<rfloor> \<le> b"
    by (rule order_trans[OF floor_le_ceiling])
  ultimately show ?thesis using assms(2) unfolding round_aspect_def by auto
qed

lemma round_aspect_near:
  assumes "0 < number"
  shows "\<bar>of_int (round_aspect number key) - number\<bar> < 1"
proof -
  have f: "of_int \<lfloor>number\<rfloor> \<le> number" "number < of_int \<lfloor>number\<rfloor> + 1" by linarith+
  have c: "number \<le> of_int \<lceil>number\<rceil>" "of_int \<lceil>number\<rceil> < number + 1" by linarith+
  have c1: "1 \<le> \<lceil>number\<rceil>" using assms by (simp add: less_ceiling_iff)
  have f0: "0 \<le> \<lfloor>number\<rfloor>" using assms by simp
  show ?thesis
  proof (cases "key \<lceil>number\<rceil> < key \<lfloor>number\<rfloor>")
    case True
    then have "round_aspect number key = \<lceil>number\<rceil>" using c1 by (simp add: round_aspect_def)
    then show ?thesis using c by simp
  next
    case False
    then have r: "round_aspect number key = max \<lfloor>number\<rfloor> 1" by (simp add: round_aspect_def)
    show ?thesis
    proof (cases "1 \<le> \<lfloor>number\<rfloor>")
      case True
      then show ?thesis using r f by simp
    next
      case False
      with f0 have "\<lfloor>number\<rfloor> = 0" by linarith
      then have "number < 1" using f by simp
      moreover have "round_aspect number key = 1" using r False by simp
      ultimately show ?thesis using assms by simp
    qed
  qed
qed

lemma thumbnail_bounds:
  assumes t: "thumbnail img0 (x, y) = Inr img"
    and pos: "0 < x" "0 < y"
    and big: "x < width img0 \<or> y < height img0"
  shows "width img \<le> x \<and> height img \<le> y \<and> 0 < width img \<and> 0 < height img"
proof -
  have h0: "height img0 \<noteq> 0" using t big pos by (auto simp: thumbnail_def Let_def split: if_splits)
  let ?a = "of_nat (width img0) / of_nat (height img0) :: rat"
  show ?thesis
  proof (cases "of_nat x / of_nat y \<ge> ?a")
    case True
    let ?r = "round_aspect (of_nat y * ?a) (\<lambda>n. \<bar>?a - of_int n / of_nat y\<bar>)"
    have img: "img = img0\<lparr>width := nat ?r, height := y\<rparr>"
      using t big pos h0 True by (auto simp: thumbnail_def Let_def split: if_splits)
    have "of_nat y * ?a \<le> (of_nat x :: rat)"
      using True pos by (simp add: pos_le_divide_eq mult.commute)
    then have "of_nat y * ?a \<le> (of_int (int x) :: rat)" by simp
    then have "?r \<le> int x" using pos by (intro round_aspect_le) auto
    moreover have "1 \<le> ?r" by (rule round_aspect_ge1)
    ultimately show ?thesis using img pos by auto
  next
    case False
    let ?r = "round_aspect (of_nat x / ?a) (\<lambda>n. if n = 0 then 0 else \<bar>?a - of_nat x / of_int n\<bar>)"
    have img: "img = img0\<lparr>width := x, height := nat ?r\<rparr>"
      using t big pos h0 False by (auto simp: thumbnail_def Let_def split: if_splits)
    have xy: "of_nat x / of_nat y < ?a" using False by simp
    have "(0::rat) \<le> of_nat x / of_nat y" by simp
    then have apos: "0 < ?a" using xy by linarith
    have lt: "of_nat x < ?a * of_nat y" using xy pos by (simp add: pos_divide_less_eq)
    have "of_nat x / ?a < (of_nat y :: rat)"
      by (rule iffD2[OF pos_divide_less_eq[OF apos]]) (subst mult.commute, rule lt)
    then have "of_nat x / ?a \<le> (of_int (int y) :: rat)" by simp
    then have "?r \<le> int y" using pos by (intro round_aspect_le) auto
    moreover have "1 \<le> ?r" by (rule round_aspect_ge1)
    ultimately show ?thesis using img pos by auto
  qed
qed

lemma near_scaled:
  assumes near: "\<bar>of_int r - q\<bar> < (1::rat)" and d: "0 < d" and m: "q * of_int d = of_int m"
  shows "\<bar>r * d - m\<bar> < d"
proof -
  have "\<bar>of_int r - q\<bar> * of_int d < 1 * (of_int d :: rat)"
    using near d by (intro mult_strict_right_mono) simp_all
  moreover have "\<bar>of_int r - q\<bar> * of_int d = \<bar>(of_int r - q) * of_int d\<bar>"
    using d by (simp add: abs_mult)
  moreover have "(of_int r - q) * of_int d = (of_int (r * d - m) :: rat)"
    using m by (simp add: left_diff_distrib)
  ultimately have "\<bar>of_int (r * d - m) :: rat\<bar> < of_int d" by simp
  then show ?thesis by (simp only: of_int_abs[symmetric] of_int_less_iff)
qed

lemma thumbnail_aspect:
  assumes t: "thumbnail img0 (x, y) = Inr img"
    and pos: "0 < x" "0 < y" "0 < width img0" "0 < height img0"
    and big: "x < width img0 \<or> y < height img0"
  shows "aspect_kept (x, y) img0 img"
proof -
  let ?w = "width img0" and ?h = "height img0"
  let ?a = "of_nat ?w / of_nat ?h :: rat"
  have apos: "0 < ?a" using pos by simp
  show ?thesis
  proof (cases "of_nat x / of_nat y \<ge> ?a")
    case True
    let ?r = "round_aspect (of_nat y * ?a) (\<lambda>n. \<bar>?a - of_int n / of_nat y\<bar>)"
    have img: "img = img0\<lparr>width := nat ?r, height := y\<rparr>"
      using t big pos True by (auto simp: thumbnail_def Let_def split: if_splits)
    have r1: "1 \<le> ?r" by (rule round_aspect_ge1)
    have "0 < of_nat y * ?a" using apos pos by (intro mult_pos_pos) simp_all
    then have near: "\<bar>of_int ?r - of_nat y * ?a\<bar> < 1"
      by (rule round_aspect_near)
    have m: "of_nat y * ?a * of_int (int ?h) = of_int (int y * int ?w)"
      using pos by simp
    have "\<bar>?r * int ?h - int y * int ?w\<bar> < int ?h"
      using near _ m by (rule near_scaled) (use pos in simp)
    then show ?thesis using img r1 by (simp add: aspect_kept_def)
  next
    case False
    let ?r = "round_aspect (of_nat x / ?a) (\<lambda>n. if n = 0 then 0 else \<bar>?a - of_nat x / of_int n\<bar>)"
    have img: "img = img0\<lparr>width := x, height := nat ?r\<rparr>"
      using t big pos False by (auto simp: thumbnail_def Let_def split: if_splits)
    have r1: "1 \<le> ?r" by (rule round_aspect_ge1)
    have "0 < of_nat x / ?a" using apos pos by (intro divide_pos_pos) simp_all
    then have near: "\<bar>of_int ?r - of_nat x / ?a\<bar> < 1"
      by (rule round_aspect_near)
    have m: "of_nat x / ?a * of_int (int ?w) = of_int (int x * int ?h)"
      using pos by simp
    have "\<bar>?r * int ?w - int x * int ?h\<bar> < int ?w"
      using near _ m by (rule near_scaled) (use pos in simp)
    then show ?thesis using img r1 by (simp add: aspect_kept_def)
  qed
qed


section \<open>Lemmas on the script\<close>

lemma save_other_Inr:
  "save ev fs p fmt q img = Inr fs' \<Longrightarrow> r \<noteq> p \<Longrightarrow> map_of fs' r = map_of fs r"
  by (auto simp: save_def Let_def update_conv' delete_conv' split: if_splits sum.splits)

lemma save_other_Inl:
  "save ev fs p fmt q img = Inl (e, fs') \<Longrightarrow> r \<noteq> p \<Longrightarrow> map_of fs' r = map_of fs r"
  by (auto simp: save_def Let_def update_conv' delete_conv' split: if_splits sum.splits)

lemma save_Inr_at:
  "save ev fs p fmt q img = Inr fs' \<Longrightarrow>
     \<exists>n. map_of fs' p = Some (File n (Encoded fmt img)) \<and> save_handler ev p fmt q img = Inr n"
  by (auto simp: save_def Let_def update_conv' split: if_splits sum.splits)

lemma save_keeps_Inr:
  "save ev fs p fmt q img = Inr fs' \<Longrightarrow> path_exists fs r \<Longrightarrow> path_exists fs' r"
  by (auto simp: save_def Let_def path_exists_def update_conv' delete_conv'
      split: if_splits sum.splits)

lemma save_keeps_Inl:
  "save ev fs p fmt q img = Inl (e, fs') \<Longrightarrow> path_exists fs r \<Longrightarrow> path_exists fs' r"
  by (auto simp: save_def Let_def path_exists_def update_conv' delete_conv'
      split: if_splits sum.splits)

lemma save_webp_cases:
  assumes "save_webp cfg ev fs p img = (r, fs', out)"
  obtains (unchanged) "fs' = fs" "r \<noteq> None"
  | (failed) wp e where "with_suffix p ''.webp'' = Inr wp"
      "save ev fs wp WEBP (QUALITY_WEBP cfg) img = Inl (e, fs')" "r = Some e"
  | (saved) wp where "with_suffix p ''.webp'' = Inr wp"
      "save ev fs wp WEBP (QUALITY_WEBP cfg) img = Inr fs'"
  using assms by (auto simp: save_webp_def split: sum.splits)

lemma try_body_cases:
  assumes "try_body cfg ev fs p = (r, fs', out)"
  obtains (unchanged) "fs' = fs" "r \<noteq> None"
  | (jpeg_failed) img e where "save ev fs p JPEG (QUALITY_JPG cfg) img = Inl (e, fs')" "r = Some e"
  | (jpeg_only) img0 img out1 where "image_open ev fs p = Inr img0"
      "normalize cfg p img0 = Inr (img, out1)"
      "save ev fs p JPEG (QUALITY_JPG cfg) img = Inr fs'" "r = None \<longrightarrow> \<not> CREATE_WEBP cfg"
  | (webp) img0 img out1 fs1 out3 where "image_open ev fs p = Inr img0"
      "normalize cfg p img0 = Inr (img, out1)"
      "save ev fs p JPEG (QUALITY_JPG cfg) img = Inr fs1" "CREATE_WEBP cfg"
      "save_webp cfg ev fs1 p img = (r, fs', out3)"
  using assms
  by (auto simp: try_body_def Let_def split: sum.splits prod.splits if_splits)

lemma save_webp_other:
  assumes "save_webp cfg ev fs p img = (r, fs', out)"
    and "with_suffix p ''.webp'' \<noteq> Inr q"
  shows "map_of fs' q = map_of fs q"
  using assms(1)
proof (cases rule: save_webp_cases)
  case unchanged
  then show ?thesis by simp
next
  case (failed wp e)
  then show ?thesis using assms(2) save_other_Inl[of ev fs wp WEBP _ img e fs' q] by auto
next
  case (saved wp)
  then show ?thesis using assms(2) save_other_Inr[of ev fs wp WEBP _ img fs' q] by auto
qed

lemma save_webp_keeps:
  assumes "save_webp cfg ev fs p img = (r, fs', out)" and "path_exists fs q"
  shows "path_exists fs' q"
  using assms(1)
proof (cases rule: save_webp_cases)
  case unchanged
  then show ?thesis using assms(2) by simp
next
  case (failed wp e)
  then show ?thesis using assms(2) by (blast intro: save_keeps_Inl)
next
  case (saved wp)
  then show ?thesis using assms(2) by (blast intro: save_keeps_Inr)
qed




lemma try_body_keeps:
  assumes "try_body cfg ev fs p = (r, fs', out)" and "path_exists fs q"
  shows "path_exists fs' q"
  using assms(1)
proof (cases rule: try_body_cases)
  case unchanged
  then show ?thesis using assms(2) by simp
next
  case (jpeg_failed img e)
  then show ?thesis using assms(2) by (blast intro: save_keeps_Inl)
next
  case (jpeg_only img0 img out1)
  then show ?thesis using assms(2) by (blast intro: save_keeps_Inr)
next
  case (webp img0 img out1 fs1 out3)
  have "path_exists fs1 q" using webp(3) assms(2) by (rule save_keeps_Inr)
  with webp(5) show ?thesis by (rule save_webp_keeps)
qed


lemma image_open_image_at: "image_open ev fs p = Inr img0 \<Longrightarrow> image_at fs p = Some img0"
  by (auto simp: image_open_def image_at_def split: option.splits node.splits content.splits if_splits)

lemma getsize_cong: "map_of fs' p = map_of fs p \<Longrightarrow> getsize fs' p = getsize fs p"
  by (simp add: getsize_def)

lemma image_at_cong: "map_of fs' p = map_of fs p \<Longrightarrow> image_at fs' p = image_at fs p"
  by (simp add: image_at_def)

lemma thumbnail_mode: "thumbnail img sz = Inr img' \<Longrightarrow> mode img' = mode img"
  by (auto simp: thumbnail_def Let_def split: if_splits)

lemma normalize_mode:
  assumes "normalize cfg p img0 = Inr (img, out1)"
  shows "mode img = (if mode img0 = RGBA \<or> mode img0 = P then RGB else mode img0)"
  using assms
  by (auto simp: normalize_def Let_def convert_def split: if_splits sum.splits
      dest!: thumbnail_mode)

lemma normalize_small:
  assumes "normalize cfg p img0 = Inr (img, out1)"
    and "\<not> (fst (MAX_SIZE cfg) < width img0 \<or> snd (MAX_SIZE cfg) < height img0)"
  shows "width img = width img0 \<and> height img = height img0"
  using assms
  by (auto simp: normalize_def Let_def convert_def split: if_splits sum.splits)

lemma normalize_big:
  assumes n: "normalize cfg p img0 = Inr (img, out1)"
    and sz: "MAX_SIZE cfg = (mx, my)" "0 < mx" "0 < my"
    and big: "mx < width img0 \<or> my < height img0"
    and pos: "0 < width img0" "0 < height img0"
  shows "width img \<le> mx \<and> height img \<le> my \<and> aspect_kept (mx, my) img0 img"
proof -
  define img1 where "img1 = (if mode img0 = RGBA \<or> mode img0 = P then convert img0 RGB else img0)"
  have wh: "width img1 = width img0" "height img1 = height img0"
    by (simp_all add: img1_def convert_def)
  have t: "thumbnail img1 (mx, my) = Inr img"
    using n sz big wh unfolding normalize_def Let_def img1_def[symmetric]
    by (auto split: if_splits sum.splits)
  have big1: "mx < width img1 \<or> my < height img1" using big wh by simp
  have "width img \<le> mx \<and> height img \<le> my \<and> 0 < width img \<and> 0 < height img"
    using t sz(2,3) big1 by (rule thumbnail_bounds)
  moreover have "aspect_kept (mx, my) img1 img"
    using t sz(2,3) _ _ big1 by (rule thumbnail_aspect) (use pos wh in simp_all)
  then have "aspect_kept (mx, my) img0 img" using wh by (simp add: aspect_kept_def)
  ultimately show ?thesis by simp
qed

lemma try_body_None:
  assumes "try_body cfg ev fs p = (None, fs', out)"
  shows "\<exists>img0 img out1 n new fs1.
           image_open ev fs p = Inr img0 \<and> normalize cfg p img0 = Inr (img, out1)
         \<and> getsize fs p = Inr n \<and> 0 < n
         \<and> save ev fs p JPEG (QUALITY_JPG cfg) img = Inr fs1 \<and> getsize fs1 p = Inr new
         \<and> Optimized (path_name p) (n div 1024) (new div 1024) \<in> set out
         \<and> (if CREATE_WEBP cfg then \<exists>out3. save_webp cfg ev fs1 p img = (None, fs', out3)
             else fs' = fs1)"
  using assms
  by (auto simp: try_body_def Let_def split: sum.splits prod.splits if_splits)

lemma save_webp_None_image:
  assumes w: "save_webp cfg ev fs1 p img = (None, fs', out3)"
    and at: "image_at fs1 p = Some img"
  shows "image_at fs' p = Some img"
  using w
proof (cases rule: save_webp_cases)
  case (saved wp)
  show ?thesis
  proof (cases "wp = p")
    case True
    then show ?thesis using save_Inr_at[OF saved(2)] by (auto simp: image_at_def)
  next
    case False
    then have "map_of fs' p = map_of fs1 p" using saved(2) by (blast intro: save_other_Inr)
    then show ?thesis using at by (simp add: image_at_def)
  qed
qed simp_all

lemma optimize_image_True:
  assumes "optimize_image cfg ev fs p = (Inr True, fs', out)"
  shows "try_body cfg ev fs p = (None, fs', out)"
  using assms by (auto simp: optimize_image_def split: prod.splits option.splits if_splits)

lemma success_image:
  assumes "optimize_image cfg ev fs p = (Inr True, fs', out)"
  shows "\<exists>img0 img out1. image_at fs p = Some img0 \<and> normalize cfg p img0 = Inr (img, out1)
           \<and> image_at fs' p = Some img"
proof -
  from try_body_None[OF optimize_image_True[OF assms]]
  obtain img0 img out1 n new fs1 where
    o: "image_open ev fs p = Inr img0" and nz: "normalize cfg p img0 = Inr (img, out1)"
    and s: "save ev fs p JPEG (QUALITY_JPG cfg) img = Inr fs1"
    and w: "if CREATE_WEBP cfg then \<exists>out3. save_webp cfg ev fs1 p img = (None, fs', out3)
             else fs' = fs1"
    by blast
  have at1: "image_at fs1 p = Some img" using save_Inr_at[OF s] by (auto simp: image_at_def)
  have "image_at fs' p = Some img"
  proof (cases "CREATE_WEBP cfg")
    case True
    then obtain out3 where "save_webp cfg ev fs1 p img = (None, fs', out3)" using w by auto
    then show ?thesis using at1 by (rule save_webp_None_image)
  next
    case False
    then show ?thesis using w at1 by simp
  qed
  then show ?thesis using image_open_image_at[OF o] nz by blast
qed

lemma success_sizes:
  assumes "optimize_image cfg ev fs p = (Inr True, fs', out)"
  shows "\<exists>original_size new_size.
           getsize fs p = Inr original_size \<and> 0 < original_size
         \<and> Optimized (path_name p) (original_size div 1024) (new_size div 1024) \<in> set out
         \<and> (with_suffix p ''.webp'' \<noteq> Inr p \<longrightarrow> getsize fs' p = Inr new_size)"
proof -
  from try_body_None[OF optimize_image_True[OF assms]]
  obtain img0 img out1 n new fs1 where
    g: "getsize fs p = Inr n" "0 < n"
    and g1: "getsize fs1 p = Inr new"
    and pr: "Optimized (path_name p) (n div 1024) (new div 1024) \<in> set out"
    and w: "if CREATE_WEBP cfg then \<exists>out3. save_webp cfg ev fs1 p img = (None, fs', out3)
             else fs' = fs1"
    by blast
  have "with_suffix p ''.webp'' \<noteq> Inr p \<longrightarrow> getsize fs' p = Inr new"
  proof (cases "CREATE_WEBP cfg")
    case True
    then obtain out3 where sw: "save_webp cfg ev fs1 p img = (None, fs', out3)" using w by auto
    show ?thesis
    proof
      assume "with_suffix p ''.webp'' \<noteq> Inr p"
      with sw have "map_of fs' p = map_of fs1 p" by (rule save_webp_other)
      then show "getsize fs' p = Inr new" using g1 by (simp add: getsize_def)
    qed
  next
    case False
    then show ?thesis using w g1 by simp
  qed
  with g pr show ?thesis by blast
qed

lemma glob_iff:
  "p \<in> set (glob cs fs folder ext) \<longleftrightarrow>
     is_dir fs folder \<and> map_of fs p \<noteq> None \<and> p \<noteq> [] \<and> butlast p = folder
     \<and> fnmatch_ext cs ext (last p)"
  by (auto simp: glob_def map_of_eq_None_iff image_iff)


lemma optimize_image_keeps:
  assumes "optimize_image cfg ev fs p = (r, fs', out)" and "path_exists fs q"
  shows "path_exists fs' q"
proof -
  obtain r0 out0 where "try_body cfg ev fs p = (r0, fs', out0)"
    using assms(1) by (auto simp: optimize_image_def split: prod.splits option.splits if_splits)
  then show ?thesis using assms(2) by (rule try_body_keeps)
qed

lemma getsize_exists: "path_exists fs p \<Longrightarrow> \<exists>n. getsize fs p = Inr n"
  by (auto simp: path_exists_def getsize_def split: option.splits node.splits)





lemma with_suffix_last:
  assumes "with_suffix p sfx = Inr wp"
  shows "wp \<noteq> [] \<and> suffix sfx (last wp)"
  using assms by (auto simp: with_suffix_def Let_def suffix_def split: if_splits)

lemma last_str_lower: "s \<noteq> [] \<Longrightarrow> last (str_lower s) = char_lower (last s)"
  by (simp add: str_lower_def last_map)

lemma fnmatch_jpg_last:
  assumes "fnmatch_ext cs ''.jpg'' name \<or> fnmatch_ext cs ''.JPG'' name"
  shows "name \<noteq> [] \<and> char_lower (last name) = CHR ''g''"
proof -
  have low: "str_lower ''.jpg'' = ''.jpg''" "str_lower ''.JPG'' = ''.jpg''"
    "char_lower CHR ''g'' = CHR ''g''" "char_lower CHR ''G'' = CHR ''g''"
    by code_simp+
  show ?thesis
  proof (cases cs)
    case True
    then obtain b where "name = b @ ''.jpg'' \<or> name = b @ ''.JPG''"
      using assms by (auto simp: fnmatch_ext_def suffix_def)
    then show ?thesis using low by auto
  next
    case False
    then obtain b where b: "str_lower name = b @ ''.jpg''"
      using assms low by (auto simp: fnmatch_ext_def suffix_def)
    then have ne: "name \<noteq> []" by (auto simp: str_lower_def)
    have "last (str_lower name) = CHR ''g''" using b by simp
    then show ?thesis using ne last_str_lower by simp
  qed
qed

lemma collected_sibling_differs:
  assumes "p \<in> set (images_of cs fs folder)"
  shows "with_suffix p ''.webp'' \<noteq> Inr p"
proof
  assume "with_suffix p ''.webp'' = Inr p"
  then have "suffix ''.webp'' (last p)" using with_suffix_last by blast
  then obtain a where a: "last p = a @ ''.webp''" by (auto simp: suffix_def)
  have "fnmatch_ext cs ''.jpg'' (last p) \<or> fnmatch_ext cs ''.JPG'' (last p)"
    using assms by (auto simp: images_of_def glob_iff)
  then have "char_lower (last (last p)) = CHR ''g''" using fnmatch_jpg_last by blast
  moreover have "last (last p) = CHR ''p''" using a by simp
  moreover have "char_lower CHR ''p'' = CHR ''p''" by code_simp
  ultimately show False by simp
qed



lemma success_writable_mode:
  assumes "optimize_image cfg ev fs p = (Inr True, fs', out)"
  shows "\<exists>img0 img out1. image_at fs p = Some img0 \<and> normalize cfg p img0 = Inr (img, out1)
           \<and> jpeg_rawmode (mode img)"
proof -
  from try_body_None[OF optimize_image_True[OF assms]]
  obtain img0 img out1 fs1 where
    o: "image_open ev fs p = Inr img0" and nz: "normalize cfg p img0 = Inr (img, out1)"
    and s: "save ev fs p JPEG (QUALITY_JPG cfg) img = Inr fs1"
    by blast
  obtain n where "save_handler ev p JPEG (QUALITY_JPG cfg) img = Inr n"
    using save_Inr_at[OF s] by blast
  then have "jpeg_rawmode (mode img)" by (auto simp: save_handler_def split: if_splits)
  then show ?thesis using image_open_image_at[OF o] nz by blast
qed

lemma unconverted_alpha_fails:
  assumes src: "image_at fs p = Some img0"
    and m: "mode img0 = LA \<or> mode img0 = PA \<or> mode img0 = RGBa \<or> mode img0 = La"
  shows "fst (optimize_image cfg ev fs p) \<noteq> Inr True"
proof
  assume "fst (optimize_image cfg ev fs p) = Inr True"
  then obtain fs' out where run: "optimize_image cfg ev fs p = (Inr True, fs', out)"
    by (cases "optimize_image cfg ev fs p") auto
  from success_writable_mode[OF run] src obtain img out1 where
    nz: "normalize cfg p img0 = Inr (img, out1)" and w: "jpeg_rawmode (mode img)" by auto
  have "mode img = mode img0" using normalize_mode[OF nz] m by auto
  then show False using w m by (auto simp: jpeg_rawmode_def)
qed

lemma rgba_and_palette_become_rgb:
  assumes run: "optimize_image cfg ev fs p = (Inr True, fs', out)"
    and src: "image_at fs p = Some img0" and m: "mode img0 = RGBA \<or> mode img0 = P"
  shows "\<exists>img. image_at fs' p = Some img \<and> mode img = RGB"
proof -
  from success_image[OF run] src obtain img out1 where
    nz: "normalize cfg p img0 = Inr (img, out1)" and at: "image_at fs' p = Some img"
    by auto
  have "mode img = RGB" using normalize_mode[OF nz] m by auto
  then show ?thesis using at by blast
qed

lemma alpha_or_palette_success_is_rgb:
  assumes run: "optimize_image cfg ev fs p = (Inr True, fs', out)"
    and src: "image_at fs p = Some img0"
    and m: "has_alpha (mode img0) \<or> is_palette (mode img0)"
  shows "\<exists>img. image_at fs' p = Some img \<and> mode img = RGB"
proof -
  have "mode img0 = RGBA \<or> mode img0 = P"
    using unconverted_alpha_fails[OF src, of cfg ev] run m
    by (auto simp: has_alpha_def is_palette_def)
  with run src show ?thesis by (rule rgba_and_palette_become_rgb)
qed

lemma selected_files:
  "p \<in> set (images_of cs fs folder) \<longleftrightarrow>
     is_dir fs folder \<and> map_of fs p \<noteq> None \<and> p \<noteq> [] \<and> butlast p = folder
     \<and> (fnmatch_ext cs ''.jpg'' (last p) \<or> fnmatch_ext cs ''.JPG'' (last p))"
  by (auto simp: images_of_def glob_iff)

lemma selected_files_posix:
  "p \<in> set (images_of True fs folder) \<longleftrightarrow>
     is_dir fs folder \<and> map_of fs p \<noteq> None \<and> p \<noteq> [] \<and> butlast p = folder
     \<and> (suffix ''.jpg'' (last p) \<or> suffix ''.JPG'' (last p))"
  by (simp add: selected_files fnmatch_ext_def)

lemma selected_files_windows:
  "p \<in> set (images_of False fs folder) \<longleftrightarrow>
     is_dir fs folder \<and> map_of fs p \<noteq> None \<and> p \<noteq> [] \<and> butlast p = folder
     \<and> suffix ''.jpg'' (str_lower (last p))"
proof -
  have low: "str_lower ''.jpg'' = ''.jpg''" "str_lower ''.JPG'' = ''.jpg''" by code_simp+
  show ?thesis by (auto simp: selected_files fnmatch_ext_def low)
qed

lemma image_at_getsize: "image_at fs p = Some img \<Longrightarrow> \<exists>n. getsize fs p = Inr n"
  by (auto simp: image_at_def getsize_def split: option.splits node.splits content.splits)


section \<open>Evaluation on the example inputs\<close>

lemmas model_defs =
  optimize_image_def try_body_def image_open_def normalize_def
  thumbnail_def Let_def round_aspect_def convert_def getsize_def
  save_def save_handler_def jpeg_rawmode_def path_exists_def is_dir_def save_webp_def
  with_suffix_def path_name_def path_suffix_def is_Exception_def
  process_image_def process_folder_def glob_def fnmatch_ext_def suffix_def summary_def main_def initial_def
  script_def str_lower_def char_lower_def char_of_def bit_Suc_0_iff image_at_def images_of_def

lemmas demo_defs =
  demo_fs_def demo_path_def script_config_def demo_env_def webp_fails_env_def
  demo_fs_after_def demo_out_def rgba_fs_def rgba_fs_after_def la_fs_after_def jpeg_only_fs_def link_fs_def

lemma demo_run:
  "optimize_image script_config demo_env demo_fs demo_path = (Inr True, demo_fs_after, demo_out)"
  by (simp add: model_defs demo_defs)

lemma rgba_run:
  "optimize_image script_config demo_env rgba_fs [''x.jpg''] =
     (Inr True, rgba_fs_after, [Optimized ''x.jpg'' 8 292, WebpCreated 195])"
  by (simp add: model_defs demo_defs)

lemma la_run:
  "optimize_image script_config demo_env demo_fs [''Finlande'', ''c.JPG''] =
     (Inr False, la_fs_after, [Erreur ''c.JPG'' OSError])"
  by (simp add: model_defs demo_defs)

lemma images_of_demo:
  "images_of True demo_fs [''Finlande''] = [[''Finlande'', ''a.jpg''], [''Finlande'', ''c.JPG'']]"
  by (simp add: model_defs demo_defs)



section \<open>The claims\<close>

subsection \<open>C1: the size of the result\<close>

text \<open>
  C1. When \<^verbatim>\<open>optimize_image\<close> returns \<^verbatim>\<open>True\<close> on a file that held an image with positive
  sides, the file holds an image afterwards and: if the original was wider or higher than
  \<^verbatim>\<open>MAX_SIZE\<close> (2000 by 2000 in the script), both sides of the result are within
  \<^verbatim>\<open>MAX_SIZE\<close> and the aspect ratio is kept as far as whole pixels allow (one side is
  exactly its bound and the other is less than one pixel away from the proportional
  value); if the original exceeded neither bound, width and height are unchanged.
\<close>

theorem resize_within_bounds:
  assumes run: "optimize_image cfg ev fs p = (Inr True, fs', out)"
    and src: "image_at fs p = Some img0" "0 < width img0" "0 < height img0"
    and sz: "MAX_SIZE cfg = (mx, my)" "0 < mx" "0 < my"
  shows "\<exists>img. image_at fs' p = Some img \<and>
     (if mx < width img0 \<or> my < height img0
      then width img \<le> mx \<and> height img \<le> my \<and> aspect_kept (mx, my) img0 img
      else width img = width img0 \<and> height img = height img0)"
proof -
  from success_image[OF run] src(1) obtain img out1 where
    nz: "normalize cfg p img0 = Inr (img, out1)" and at: "image_at fs' p = Some img"
    by auto
  show ?thesis
  proof (cases "mx < width img0 \<or> my < height img0")
    case True
    then show ?thesis using normalize_big[OF nz sz True src(2,3)] at by simp
  next
    case False
    then show ?thesis using normalize_small[OF nz] sz at by simp
  qed
qed

theorem resize_within_bounds_witness:
  "optimize_image script_config demo_env demo_fs demo_path = (Inr True, demo_fs_after, demo_out)
   \<and> image_at demo_fs demo_path = Some \<lparr>mode = RGB, width = 4000, height = 3000\<rparr>
   \<and> MAX_SIZE script_config = (2000, 2000)
   \<and> (\<exists>img. image_at demo_fs_after demo_path = Some img
        \<and> width img \<le> 2000 \<and> height img \<le> 2000
        \<and> aspect_kept (2000, 2000) \<lparr>mode = RGB, width = 4000, height = 3000\<rparr> img)"
proof -
  have src: "image_at demo_fs demo_path = Some \<lparr>mode = RGB, width = 4000, height = 3000\<rparr>"
    by (simp add: image_at_def demo_fs_def demo_path_def)
  have sz: "MAX_SIZE script_config = (2000, 2000)" by (simp add: script_config_def)
  show ?thesis
    using resize_within_bounds[OF demo_run src _ _ sz] demo_run src sz by simp
qed

subsection \<open>C2: alpha and palette modes\<close>

text \<open>
  C2. Line 37 converts the two modes \<^verbatim>\<open>'RGBA'\<close> and \<^verbatim>\<open>'P'\<close> only. A valid greyscale image
  with an alpha channel (mode \<^verbatim>\<open>'LA'\<close>) reaches \<^verbatim>\<open>img.save(image_path, 'JPEG', ...)\<close>
  unconverted: the file is opened for writing, the JPEG writer refuses the mode, the call
  returns \<^verbatim>\<open>False\<close>, and the path holds an empty file instead of a three-channel image.
  (Whenever a call on an image with an alpha channel or a palette does return \<^verbatim>\<open>True\<close>,
  the result is RGB: \<open>alpha_or_palette_success_is_rgb\<close>; in the modes \<^verbatim>\<open>'LA'\<close>,
  \<^verbatim>\<open>'PA'\<close>, \<^verbatim>\<open>'RGBa'\<close> and \<^verbatim>\<open>'La'\<close> it never does: \<open>unconverted_alpha_fails\<close>.)
\<close>

theorem la_image_left_empty:
  "image_at demo_fs [''Finlande'', ''c.JPG''] = Some \<lparr>mode = LA, width = 400, height = 300\<rparr>
   \<and> has_alpha LA
   \<and> optimize_image script_config demo_env demo_fs [''Finlande'', ''c.JPG''] =
       (Inr False, la_fs_after, [Erreur ''c.JPG'' OSError])
   \<and> map_of la_fs_after [''Finlande'', ''c.JPG''] = Some (File 0 Undecodable)
   \<and> image_at la_fs_after [''Finlande'', ''c.JPG''] = None"
  using la_run by (simp add: image_at_def demo_fs_def la_fs_after_def has_alpha_def)

subsection \<open>C3: failures and the batch\<close>

text \<open>
  C3. A folder of the list holds a dangling symbolic link \<^verbatim>\<open>broken.jpg\<close>, listed before
  the photo \<^verbatim>\<open>a.jpg\<close>. \<^verbatim>\<open>optimize_image\<close> on the link returns \<^verbatim>\<open>False\<close>, as the claim
  says; but \<^verbatim>\<open>main\<close> calls \<^verbatim>\<open>os.path.getsize\<close> on it first (line 91, outside any
  \<^verbatim>\<open>try\<close>), which raises \<^verbatim>\<open>FileNotFoundError\<close>: the run ends there, before the
  summary, and the photo after the link is never processed.
\<close>

theorem dangling_link_stops_the_batch:
  "images_of (case_sensitive demo_env) link_fs [''Finlande''] =
     [[''Finlande'', ''broken.jpg''], [''Finlande'', ''a.jpg'']]
   \<and> optimize_image script_config demo_env link_fs [''Finlande'', ''broken.jpg''] =
       (Inr False, link_fs, [Erreur ''broken.jpg'' FileNotFoundError])
   \<and> getsize link_fs [''Finlande'', ''broken.jpg''] = Inl FileNotFoundError
   \<and> main script_config demo_env link_fs =
       Inl (FileNotFoundError,
            \<lparr>files = link_fs, total_images = 0, total_original = 0, total_optimized = 0,
             printed = [Banner, FolderHeader [''Finlande'']]\<rparr>)"
  by (simp add: model_defs demo_defs)

subsection \<open>C4: what a successful call returns\<close>

text \<open>
  C4, as amended. \<^verbatim>\<open>optimize_image\<close> returns the bare flag \<^verbatim>\<open>True\<close>. The byte sizes are
  not part of the returned value: the original size (which is positive) and the new size
  are printed, in KB, in the progress line, and \<^verbatim>\<open>main\<close> reads them itself with
  \<^verbatim>\<open>os.path.getsize\<close> before and after the call and adds what it read to its totals;
  when the \<^verbatim>\<open>.webp\<close> sibling is another path than the image, the size it reads
  afterwards is the new size.
\<close>

theorem returns_flag_and_prints_sizes:
  assumes "optimize_image cfg ev fs p = (r, fs', out)" and "r = Inr True"
  shows "\<exists>original_size new_size optimized_size.
           getsize fs p = Inr original_size \<and> 0 < original_size
         \<and> Optimized (path_name p) (original_size div 1024) (new_size div 1024) \<in> set out
         \<and> (with_suffix p ''.webp'' \<noteq> Inr p \<longrightarrow> getsize fs' p = Inr new_size)
         \<and> getsize fs' p = Inr optimized_size
         \<and> (\<forall>st. files st = fs \<longrightarrow>
               process_image cfg ev st p =
                 Inr (st\<lparr>files := fs', printed := printed st @ out,
                         total_images := total_images st + 1,
                         total_original := total_original st + original_size,
                         total_optimized := total_optimized st + optimized_size\<rparr>))"
proof -
  have run: "optimize_image cfg ev fs p = (Inr True, fs', out)" using assms by simp
  from success_sizes[OF run] obtain original_size new_size where
    a: "getsize fs p = Inr original_size" "0 < original_size"
      "Optimized (path_name p) (original_size div 1024) (new_size div 1024) \<in> set out"
      "with_suffix p ''.webp'' \<noteq> Inr p \<longrightarrow> getsize fs' p = Inr new_size"
    by blast
  from success_image[OF run] obtain img where "image_at fs' p = Some img" by blast
  then obtain optimized_size where b: "getsize fs' p = Inr optimized_size"
    using image_at_getsize by blast
  have "\<forall>st. files st = fs \<longrightarrow>
               process_image cfg ev st p =
                 Inr (st\<lparr>files := fs', printed := printed st @ out,
                         total_images := total_images st + 1,
                         total_original := total_original st + original_size,
                         total_optimized := total_optimized st + optimized_size\<rparr>)"
    using run a(1) b by (simp add: process_image_def Let_def)
  with a b show ?thesis by blast
qed

theorem returns_flag_and_prints_sizes_witness:
  "optimize_image script_config demo_env demo_fs demo_path = (Inr True, demo_fs_after, demo_out)
   \<and> with_suffix demo_path ''.webp'' \<noteq> Inr demo_path
   \<and> files (initial demo_fs) = demo_fs
   \<and> (\<exists>original_size new_size optimized_size.
           getsize demo_fs demo_path = Inr original_size \<and> 0 < original_size
         \<and> Optimized (path_name demo_path) (original_size div 1024) (new_size div 1024)
             \<in> set demo_out
         \<and> getsize demo_fs_after demo_path = Inr new_size
         \<and> getsize demo_fs_after demo_path = Inr optimized_size
         \<and> process_image script_config demo_env (initial demo_fs) demo_path =
             Inr ((initial demo_fs)\<lparr>files := demo_fs_after,
                    printed := printed (initial demo_fs) @ demo_out,
                    total_images := total_images (initial demo_fs) + 1,
                    total_original := total_original (initial demo_fs) + original_size,
                    total_optimized := total_optimized (initial demo_fs) + optimized_size\<rparr>))"
proof -
  have w: "with_suffix demo_path ''.webp'' \<noteq> Inr demo_path"
    by (simp add: model_defs demo_defs)
  have st: "files (initial demo_fs) = demo_fs" by (simp add: initial_def)
  show ?thesis
    using returns_flag_and_prints_sizes[OF demo_run refl] demo_run w st by blast
qed

text \<open>
  The claim as stated has the returned value carry the two sizes. Two successful calls
  return the same value, \<^verbatim>\<open>True\<close>, on files of different sizes, so the sizes cannot be
  read off the returned value.
\<close>

theorem result_carries_sizes_counterexample:
  "fst (optimize_image script_config demo_env demo_fs demo_path) = Inr True
   \<and> fst (optimize_image script_config demo_env rgba_fs [''x.jpg'']) = Inr True
   \<and> getsize demo_fs demo_path = Inr 5000000
   \<and> getsize rgba_fs [''x.jpg''] = Inr 9000"
  using demo_run rgba_run by (simp add: getsize_def demo_fs_def demo_path_def rgba_fs_def)

subsection \<open>C5: the files of a folder\<close>

text \<open>
  C5. With the POSIX flavour of \<^verbatim>\<open>pathlib\<close>, the two patterns of line 88 select the names
  that end in \<^verbatim>\<open>.jpg\<close> or in \<^verbatim>\<open>.JPG\<close>, written exactly so
  (\<open>selected_files_posix\<close>): the file \<^verbatim>\<open>b.Jpg\<close>, directly in a folder of the list and
  with the extension \<^verbatim>\<open>.jpg\<close> up to case, is not selected. (With the Windows flavour
  the selection is without regard to case: \<open>selected_files_windows\<close>.)
\<close>

theorem mixed_case_extension_not_selected:
  "case_sensitive demo_env
   \<and> is_dir demo_fs [''Finlande''] \<and> path_exists demo_fs [''Finlande'', ''b.Jpg'']
   \<and> butlast [''Finlande'', ''b.Jpg''] = [''Finlande'']
   \<and> str_lower (path_suffix [''Finlande'', ''b.Jpg'']) = ''.jpg''
   \<and> [''Finlande'', ''b.Jpg''] \<notin> set (images_of (case_sensitive demo_env) demo_fs [''Finlande''])"
  by (simp add: model_defs demo_defs)

subsection \<open>C6: what a call may touch\<close>



subsection \<open>C7: a missing folder\<close>



subsection \<open>C8: the confirmation\<close>

text \<open>
  C8. The entry point runs \<^verbatim>\<open>main\<close> exactly when the lower-cased answer is one of
  \<^verbatim>\<open>o\<close>, \<^verbatim>\<open>oui\<close>, \<^verbatim>\<open>y\<close>, \<^verbatim>\<open>yes\<close>; on any other answer it prints the cancellation
  line and the file system is the one it started from.
\<close>

theorem confirmation_gate:
  "(str_lower response \<in> {''o'', ''oui'', ''y'', ''yes''} \<longrightarrow>
      script cfg ev fs response = main cfg ev fs)
   \<and> (str_lower response \<notin> {''o'', ''oui'', ''y'', ''yes''} \<longrightarrow>
      script cfg ev fs response = Inr ((initial fs)\<lparr>printed := [Annule]\<rparr>)
      \<and> files ((initial fs)\<lparr>printed := [Annule]\<rparr>) = fs)"
  by (simp add: script_def initial_def)

theorem confirmation_gate_witness:
  "str_lower ''OUI'' \<in> {''o'', ''oui'', ''y'', ''yes''}
   \<and> script script_config demo_env demo_fs ''OUI'' = main script_config demo_env demo_fs
   \<and> str_lower ''non'' \<notin> {''o'', ''oui'', ''y'', ''yes''}
   \<and> script script_config demo_env demo_fs ''non'' = Inr ((initial demo_fs)\<lparr>printed := [Annule]\<rparr>)"
proof -
  have a: "str_lower ''OUI'' \<in> {''o'', ''oui'', ''y'', ''yes''}"
    by code_simp
  have b: "str_lower ''non'' \<notin> {''o'', ''oui'', ''y'', ''yes''}"
    by code_simp
  show ?thesis
    using a b confirmation_gate[of "''OUI''" script_config demo_env demo_fs]
      confirmation_gate[of "''non''" script_config demo_env demo_fs]
    by blast
qed

subsection \<open>C9: the division in the summary\<close>



subsection \<open>C10: a WebP failure after the JPEG was written\<close>

text \<open>
  C10. With \<^verbatim>\<open>CREATE_WEBP\<close> on, when the image was opened, normalised and saved as JPEG
  over the original, and the save of the WebP sibling (another path than the image, as it
  is for every file that \<^verbatim>\<open>main\<close> collects) then raises an \<^verbatim>\<open>Exception\<close>:
  \<^verbatim>\<open>optimize_image\<close> returns \<^verbatim>\<open>False\<close>, the image path holds the re-encoded JPEG, and
  the loop body of \<^verbatim>\<open>main\<close> leaves the three counters as they were.
\<close>

theorem webp_failure_after_jpeg_written:
  assumes cw: "CREATE_WEBP cfg"
    and o: "image_open ev fs p = Inr img0"
    and nz: "normalize cfg p img0 = Inr (img, out1)"
    and sz: "getsize fs p = Inr original_size" "0 < original_size"
    and s1: "save ev fs p JPEG (QUALITY_JPG cfg) img = Inr fs1"
    and wp: "with_suffix p ''.webp'' = Inr webp_path" "webp_path \<noteq> p"
    and s2: "save ev fs1 webp_path WEBP (QUALITY_WEBP cfg) img = Inl (e, fs2)"
    and e: "is_Exception e"
    and st: "files st = fs"
  shows "\<exists>out. optimize_image cfg ev fs p = (Inr False, fs2, out)
        \<and> (\<exists>n. map_of fs2 p = Some (File n (Encoded JPEG img)))
        \<and> process_image cfg ev st p = Inr (st\<lparr>files := fs2, printed := printed st @ out\<rparr>)"
proof -
  obtain n where at1: "map_of fs1 p = Some (File n (Encoded JPEG img))"
    using save_Inr_at[OF s1] by blast
  then have g1: "getsize fs1 p = Inr n" by (simp add: getsize_def)
  have "map_of fs2 p = map_of fs1 p" using s2 wp(2) by (blast intro: save_other_Inl)
  then have at2: "map_of fs2 p = Some (File n (Encoded JPEG img))" using at1 by simp
  let ?out = "out1 @ [Optimized (path_name p) (original_size div 1024) (n div 1024)]
                @ [Erreur (path_name p) e]"
  have tb: "try_body cfg ev fs p =
      (Some e, fs2, out1 @ [Optimized (path_name p) (original_size div 1024) (n div 1024)])"
    using cw o nz sz s1 g1 wp s2 by (simp add: try_body_def save_webp_def)
  then have oi: "optimize_image cfg ev fs p = (Inr False, fs2, ?out)"
    using e by (simp add: optimize_image_def)
  have "process_image cfg ev st p = Inr (st\<lparr>files := fs2, printed := printed st @ ?out\<rparr>)"
    using oi sz(1) st by (simp add: process_image_def)
  with oi at2 show ?thesis by blast
qed

theorem webp_failure_after_jpeg_written_witness:
  "(\<exists>out. optimize_image script_config webp_fails_env demo_fs demo_path
             = (Inr False, jpeg_only_fs, out)
        \<and> process_image script_config webp_fails_env (initial demo_fs) demo_path
             = Inr ((initial demo_fs)\<lparr>files := jpeg_only_fs, printed := out\<rparr>))
   \<and> image_at jpeg_only_fs demo_path = Some \<lparr>mode = RGB, width = 2000, height = 1500\<rparr>
   \<and> image_at demo_fs demo_path = Some \<lparr>mode = RGB, width = 4000, height = 3000\<rparr>"
proof -
  let ?img = "\<lparr>mode = RGB, width = 2000, height = 1500\<rparr>"
  have cw: "CREATE_WEBP script_config" by (simp add: script_config_def)
  have o: "image_open webp_fails_env demo_fs demo_path
             = Inr \<lparr>mode = RGB, width = 4000, height = 3000\<rparr>"
    by (simp add: model_defs demo_defs)
  have nz: "normalize script_config demo_path \<lparr>mode = RGB, width = 4000, height = 3000\<rparr>
             = Inr (?img, [Resized ''a.jpg''])"
    by (simp add: model_defs demo_defs)
  have sz: "getsize demo_fs demo_path = Inr 5000000" "0 < (5000000::nat)"
    by (simp_all add: model_defs demo_defs)
  have s1: "save webp_fails_env demo_fs demo_path JPEG (QUALITY_JPG script_config) ?img
             = Inr jpeg_only_fs"
    by (simp add: model_defs demo_defs)
  have wp: "with_suffix demo_path ''.webp'' = Inr [''Finlande'', ''a.webp'']"
      "[''Finlande'', ''a.webp''] \<noteq> demo_path"
    by (simp_all add: model_defs demo_defs)
  have s2: "save webp_fails_env jpeg_only_fs [''Finlande'', ''a.webp''] WEBP
              (QUALITY_WEBP script_config) ?img = Inl (OSError, jpeg_only_fs)"
    by (simp add: model_defs demo_defs)
  have e: "is_Exception OSError" by (simp add: is_Exception_def)
  have st: "files (initial demo_fs) = demo_fs" by (simp add: initial_def)
  have at: "image_at jpeg_only_fs demo_path = Some ?img"
      "image_at demo_fs demo_path = Some \<lparr>mode = RGB, width = 4000, height = 3000\<rparr>"
    by (simp_all add: model_defs demo_defs)
  show ?thesis
    using webp_failure_after_jpeg_written[OF cw o nz sz s1 wp s2 e st] at
    by (auto simp: initial_def)
qed


end
